theory Spec2Isabelle
  imports Main "HOL-Library.Word"
begin

section \<open>The push processor of uniqush-push (pushprocessor.go)\<close>

text \<open>
  The processor is effectful Go code: it calls a storage front end, a push service
  manager, a response sink, a logger, a send-only channel and it starts goroutines.
  Each function of the source is embedded as a function that returns the list of
  effects (events) it performs, in program order, on the goroutine that runs it. A
  \<^verbatim>\<open>go f(...)\<close> statement is one event of the spawning goroutine; what the new
  goroutine does is the event list of \<open>f\<close> itself.

  The two collaborators whose answers decide the control flow (the push service manager
  and the storage front end) are fields of a record \<open>world\<close>, as functions of the
  arguments of the call; \<open>now\<close> is the clock that \<^verbatim>\<open>PunchTimestamp\<close> reads. Their code
  is not part of the file: \<^verbatim>\<open>Push\<close> is a method of pushsys, called on the field
  \<^verbatim>\<open>psm\<close> (which \<^verbatim>\<open>NewPushProcessor\<close> leaves unset), and the storage is behind the
  interface \<^verbatim>\<open>PushDatabase\<close>. Error values and the pointers handed to the processor
  are taken to be well formed: an error of a given dynamic type is not a nil pointer of
  that type.

  Go's \<^verbatim>\<open>int\<close> is modelled by \<open>int\<close>: the only arithmetic on such values is
  \<^verbatim>\<open>nrRetries + 1\<close>, computed only when \<^verbatim>\<open>nrRetries < max_nr_retry\<close>, quotient and
  remainder of a length, and positions within a slice, none of which can overflow. The
  \<^verbatim>\<open>int64\<close> backoff, which is shifted and multiplied, is a \<open>64 word\<close>.
\<close>

subsection \<open>Data\<close>

text \<open>
  Providers, delivery points and notifications belong to the package pushsys; the
  processor only reads their names and string forms, and passes them on.
\<close>

record PushServiceProvider =
  psp_Name :: string
  psp_PushServiceName :: string
  psp_String :: string

record DeliveryPoint =
  dp_Name :: string
  dp_String :: string

datatype Notification = MkNotification (Data: "(string \<times> string) list")

type_synonym PushServiceProviderDeliveryPointPair = "PushServiceProvider \<times> DeliveryPoint"

text \<open>
  The error values the processor distinguishes by a type switch. \<open>OtherError\<close> stands
  for every error of another dynamic type (a storage error, an error made by
  \<^verbatim>\<open>fmt.Errorf\<close>), carrying its message.
\<close>

datatype error =
    RefreshDataError "PushServiceProvider option" "DeliveryPoint option" "error option"
  | RetryError (RetryAfter: int)
  | UnregisteredError
  | OtherError string

datatype action = ACTION_PUSH | ACTION_UNSUBSCRIBE | ACTION_other nat

text \<open>
  The fields of \<^verbatim>\<open>Request\<close> that the processor reads or writes. \<open>Timestamp\<close> is
  what \<^verbatim>\<open>PunchTimestamp\<close> sets, the reading \<open>now\<close> of the clock. A field that the
  source leaves untouched after \<^verbatim>\<open>new(Request)\<close> has its zero value.
\<close>

datatype Request = Request
  (ID: string)
  (Action: action)
  (RequestSenderAddr: string)
  (Service: string)
  (Subscribers: "string list")
  (PushServiceProvider: "PushServiceProvider option")
  (DeliveryPoint: "DeliveryPoint option")
  (Notification: "Notification option")
  (nrRetries: int)
  (backoffTime: "64 word")
  (PreviousTry: "Request option")
  (Timestamp: int)

record PushProcessor =
  max_nr_gorountines :: int
  max_nr_retry :: int

record world =
  psm_Push :: "PushServiceProvider \<Rightarrow> DeliveryPoint \<Rightarrow> Notification option
    \<Rightarrow> string \<times> error option"
  GetPushServiceProviderDeliveryPointPairs :: "string \<Rightarrow> string
    \<Rightarrow> PushServiceProviderDeliveryPointPair list \<times> error option"
  now :: int

datatype level = Info | Warn | Error | Debug

datatype event =
    PsmPush PushServiceProvider DeliveryPoint "Notification option"
  | DbGetPairs string string
  | ModifyPushServiceProvider PushServiceProvider
  | ModifyDeliveryPoint DeliveryPoint
  | Respond error
  | Finish
  | Recycle "Notification option"
  | Send Request
  | Sleep "64 word"
  | Go_retryRequest Request int string PushServiceProvider DeliveryPoint
  | Go_push Request string
  | Go_pushBulk Request "string list"
  | WgAdd
  | WgDone
  | WgWait
  | Log level string

subsection \<open>The retry scheduler\<close>

definition init_backoff_time :: "64 word" where
  "init_backoff_time = 3"

text \<open>
  \<^verbatim>\<open>retryRequest\<close> runs on a goroutine of its own. It returns at once when the retry
  budget is used up; otherwise it builds the new request, waits and sends it.
\<close>

definition retryRequest ::
  "world \<Rightarrow> PushProcessor \<Rightarrow> Request \<Rightarrow> int \<Rightarrow> string \<Rightarrow> PushServiceProvider
     \<Rightarrow> DeliveryPoint \<Rightarrow> event list" where
  "retryRequest w p req retryAfter subscriber psp dp =
     (if nrRetries req \<ge> max_nr_retry p then []
      else
        let newreq_backoffTime =
              (if nrRetries req = 0 \<or> backoffTime req = 0 then init_backoff_time
               else push_bit 1 (backoffTime req));
            newreq = Request (ID req) ACTION_PUSH (RequestSenderAddr req) (Service req)
              [subscriber] (Some psp) (Some dp) (Notification req) (nrRetries req + 1)
              newreq_backoffTime (Some req) (now w);
            waitTime = (if retryAfter > 0 then word_of_int retryAfter
                        else backoffTime newreq);
            duration = waitTime * 1000000000
        in [Sleep duration, Send newreq])"

definition NewPushProcessor :: PushProcessor where
  "NewPushProcessor = \<lparr>max_nr_gorountines = 1024, max_nr_retry = 3\<rparr>"

subsection \<open>Recovery handlers\<close>

definition unsubscribe :: "world \<Rightarrow> Request \<Rightarrow> string \<Rightarrow> DeliveryPoint \<Rightarrow> event list" where
  "unsubscribe w req subscriber dp =
     [Send (Request (ID req) ACTION_UNSUBSCRIBE (RequestSenderAddr req) (Service req)
        [subscriber] None (Some dp) None 0 0 None (now w))]"

text \<open>
  \<^verbatim>\<open>refreshData\<close> takes the three fields of the \<^verbatim>\<open>RefreshDataError\<close> and returns
  its effects together with the wrapped error.
\<close>

definition refreshData ::
  "Request \<Rightarrow> string \<Rightarrow> PushServiceProvider option \<Rightarrow> DeliveryPoint option \<Rightarrow> error option
     \<Rightarrow> event list \<times> error option" where
  "refreshData req stype re_psp re_dp re_OtherError =
     ((case re_psp of None \<Rightarrow> []
       | Some psp \<Rightarrow> [ModifyPushServiceProvider psp, Log Info ''UpdatePushServiceProvider'']) @
      (case re_dp of None \<Rightarrow> []
       | Some dp \<Rightarrow> [ModifyDeliveryPoint dp, Log Info ''UpdateDeliveryPoint'']),
      re_OtherError)"

definition recycle ::
  "PushServiceProvider \<Rightarrow> DeliveryPoint \<Rightarrow> Notification option \<Rightarrow> event list" where
  "recycle psp dp n = [Recycle n]"

definition pushFail ::
  "Request \<Rightarrow> string \<Rightarrow> PushServiceProvider \<Rightarrow> DeliveryPoint \<Rightarrow> error \<Rightarrow> event list" where
  "pushFail req subscriber psp dp err =
     [Log Error ''PushFail'', Log Debug ''PushFailDebug''] @ recycle psp dp (Notification req)"

definition pushRetry ::
  "Request \<Rightarrow> string \<Rightarrow> PushServiceProvider \<Rightarrow> DeliveryPoint \<Rightarrow> int \<Rightarrow> event list" where
  "pushRetry req subscriber psp dp err_RetryAfter =
     [Go_retryRequest req err_RetryAfter subscriber psp dp, Log Warn ''PushRetry'']"

definition pushSucc ::
  "Request \<Rightarrow> string \<Rightarrow> PushServiceProvider \<Rightarrow> DeliveryPoint \<Rightarrow> string \<Rightarrow> event list" where
  "pushSucc req subscriber psp dp msgid =
     [Log Info ''PushSuccess''] @ recycle psp dp (Notification req)"

subsection \<open>One delivery attempt\<close>

text \<open>
  The first type switch replaces a \<^verbatim>\<open>RefreshDataError\<close> by the error it wraps,
  after \<^verbatim>\<open>refreshData\<close> has run; the second switch acts on the error that is left.
\<close>

definition pushToDeliveryPoint ::
  "world \<Rightarrow> PushProcessor \<Rightarrow> Request \<Rightarrow> string \<Rightarrow> PushServiceProvider \<Rightarrow> DeliveryPoint
     \<Rightarrow> event list" where
  "pushToDeliveryPoint w p req subscriber psp dp =
     (case psm_Push w psp dp (Notification req) of (msgid, err) \<Rightarrow>
        PsmPush psp dp (Notification req) #
        (case err of
           None \<Rightarrow> pushSucc req subscriber psp dp msgid
         | Some e \<Rightarrow>
             (case (case e of
                      RefreshDataError re_psp re_dp re_other \<Rightarrow>
                        refreshData req (psp_PushServiceName psp) re_psp re_dp re_other
                    | _ \<Rightarrow> ([], Some e)) of
                (evs, None) \<Rightarrow> evs @ pushSucc req subscriber psp dp msgid
              | (evs, Some err') \<Rightarrow>
                  evs @
                  (case err' of
                     RetryError ra \<Rightarrow>
                       [Respond (OtherError (''PushServiceProvider='' @ psp_Name psp @
                          '' Subscriber='' @ subscriber @ '' DeliveryPoint='' @ dp_Name dp @
                          '' Retry''))] @
                       pushRetry req subscriber psp dp ra
                   | UnregisteredError \<Rightarrow> [Respond err'] @ unsubscribe w req subscriber dp
                   | _ \<Rightarrow> [Respond err'] @ pushFail req subscriber psp dp err'))))"

subsection \<open>One subscriber\<close>

text \<open>
  The loop over the pairs, with the names already pushed to in \<open>chked_dps\<close>. The inner
  loop over \<open>chked_dps\<close> is the \<open>fold\<close>.
\<close>

fun push_loop ::
  "world \<Rightarrow> PushProcessor \<Rightarrow> Request \<Rightarrow> string \<Rightarrow> PushServiceProviderDeliveryPointPair list
     \<Rightarrow> string list \<Rightarrow> event list" where
  "push_loop w p req subscriber [] chked_dps = []"
| "push_loop w p req subscriber (pdpair # rest) chked_dps =
     (let psp = fst pdpair; dp = snd pdpair;
          pushit = fold (\<lambda>d pushit. if d = dp_Name dp then False else pushit) chked_dps True
      in if pushit
         then pushToDeliveryPoint w p req subscriber psp dp @
              push_loop w p req subscriber rest (chked_dps @ [dp_Name dp])
         else push_loop w p req subscriber rest chked_dps)"

text \<open>
  \<open>wg\<close> says whether the wait group pointer is not nil. The deferred function runs
  last on every path.
\<close>

definition push :: "world \<Rightarrow> PushProcessor \<Rightarrow> Request \<Rightarrow> string \<Rightarrow> bool \<Rightarrow> event list" where
  "push w p req subscriber wg =
     (case GetPushServiceProviderDeliveryPointPairs w (Service req) subscriber of
        (pspdppairs, err) \<Rightarrow>
          [DbGetPairs (Service req) subscriber] @
          (case err of None \<Rightarrow> []
           | Some e \<Rightarrow> [Log Error ''PushFail'', Respond e]) @
          (if length pspdppairs \<le> 0
           then [Log Warn ''PushFail'',
                 Respond (OtherError (''Subscriber='' @ subscriber @ '' NoDevice''))]
           else push_loop w p req subscriber pspdppairs []) @
          (if wg then [WgDone] else []))"

definition pushBulk ::
  "world \<Rightarrow> PushProcessor \<Rightarrow> Request \<Rightarrow> string list \<Rightarrow> bool \<Rightarrow> event list" where
  "pushBulk w p req subscribers wg =
     concat (map (\<lambda>sub. push w p req sub False) subscribers) @
     (if wg then [WgDone] else [])"

subsection \<open>The dispatcher\<close>

text \<open>
  Go's integer division truncates towards zero and the remainder takes the sign of the
  dividend; division by zero panics, which \<open>Process\<close> checks before it divides.
\<close>

definition go_quot :: "int \<Rightarrow> int \<Rightarrow> int" where
  "go_quot a b = sgn a * sgn b * (\<bar>a\<bar> div \<bar>b\<bar>)"

definition go_rem :: "int \<Rightarrow> int \<Rightarrow> int" where
  "go_rem a b = sgn a * (\<bar>a\<bar> mod \<bar>b\<bar>)"

text \<open>
  The slice expression \<^verbatim>\<open>s[lo:hi]\<close>, \<open>None\<close> where Go panics. The capacity of the
  slice is taken to be its length.
\<close>

definition slice :: "'a list \<Rightarrow> int \<Rightarrow> int \<Rightarrow> 'a list option" where
  "slice s lo hi =
     (if 0 \<le> lo \<and> lo \<le> hi \<and> hi \<le> int (length s)
      then Some (take (nat (hi - lo)) (drop (nat lo) s)) else None)"

text \<open>
  The \<^verbatim>\<open>for\<close> loop of the batched path, from position \<open>pos\<close> on, with the events so
  far in \<open>acc\<close>. It gives the events and the final \<open>pos\<close>, or no position when the slice
  expression panics (after \<^verbatim>\<open>wg.Add(1)\<close>). The loop need not end for every argument,
  so it is a partial function: \<open>None\<close> is a loop that runs forever.
\<close>

partial_function (option) Process_loop ::
  "Request \<Rightarrow> int \<Rightarrow> int \<Rightarrow> int \<Rightarrow> event list \<Rightarrow> (event list \<times> int option) option" where
  "Process_loop req nr_subs_per_goroutine bound pos acc =
     (if pos < bound
      then (case slice (Subscribers req) pos (pos + nr_subs_per_goroutine) of
              None \<Rightarrow> Some (acc @ [WgAdd], None)
            | Some batch \<Rightarrow>
                Process_loop req nr_subs_per_goroutine bound (pos + nr_subs_per_goroutine)
                  (acc @ [WgAdd, Go_pushBulk req batch]))
      else Some (acc, Some pos))"

declare Process_loop.simps [code]

text \<open>
  \<open>Process\<close> gives the events of the calling goroutine and the panic it ends with, if
  any; \<open>None\<close> if it does not return. The deferred \<^verbatim>\<open>req.Finish()\<close> runs when the
  function returns and when it panics.
\<close>

definition Process :: "world \<Rightarrow> PushProcessor \<Rightarrow> Request \<Rightarrow> (event list \<times> string option) option" where
  "Process w p req =
     (case (Subscribers req, PushServiceProvider req, DeliveryPoint req) of
        ([subscriber], Some psp, Some dp) \<Rightarrow>
          Some (pushToDeliveryPoint w p req subscriber psp dp @ [Finish], None)
      | _ \<Rightarrow>
        if int (length (Subscribers req)) \<le> max_nr_gorountines p
        then Some (concat (map (\<lambda>sub. [WgAdd, Go_push req sub]) (Subscribers req)) @
                   [WgWait, Finish], None)
        else if max_nr_gorountines p = 0
        then Some ([Finish], Some ''integer divide by zero'')
        else
          let nr_subs_per_goroutine =
                go_quot (int (length (Subscribers req))) (max_nr_gorountines p);
              nr_subs_last_goroutine =
                go_rem (int (length (Subscribers req))) (max_nr_gorountines p)
          in (case Process_loop req nr_subs_per_goroutine
                     (int (length (Subscribers req)) - nr_subs_last_goroutine) 0 [] of
                None \<Rightarrow> None
              | Some (evs, None) \<Rightarrow> Some (evs @ [Finish], Some ''slice bounds out of range'')
              | Some (evs, Some pos) \<Rightarrow>
                  if pos < int (length (Subscribers req))
                  then (case slice (Subscribers req) pos (int (length (Subscribers req))) of
                          None \<Rightarrow>
                            Some (evs @ [WgAdd, Finish], Some ''slice bounds out of range'')
                        | Some batch \<Rightarrow>
                            Some (evs @ [WgAdd, Go_pushBulk req batch] @ [WgWait, Finish], None))
                  else Some (evs @ [WgWait, Finish], None)))"

text \<open>What the goroutine started by a \<^verbatim>\<open>go\<close> statement does.\<close>

definition goroutine :: "world \<Rightarrow> PushProcessor \<Rightarrow> event \<Rightarrow> event list" where
  "goroutine w p ev =
     (case ev of
        Go_retryRequest req retryAfter subscriber psp dp \<Rightarrow>
          retryRequest w p req retryAfter subscriber psp dp
      | Go_push req sub \<Rightarrow> push w p req sub True
      | Go_pushBulk req subs \<Rightarrow> pushBulk w p req subs True
      | _ \<Rightarrow> [])"

subsection \<open>Reading a list of events\<close>

text \<open>
  The properties below speak about what a list of events holds: the errors given to
  the response sink, the requests sent on the channel, the retries started, the
  notifications recycled, the pairs pushed to, the subscribers looked up, the batches
  handed to \<^verbatim>\<open>pushBulk\<close> goroutines, the credentials written to storage, and the
  calls of \<^verbatim>\<open>Finish\<close>.
\<close>

fun respond_of :: "event \<Rightarrow> error list" where
  "respond_of (Respond e) = [e]"
| "respond_of _ = []"

fun send_of :: "event \<Rightarrow> Request list" where
  "send_of (Send r) = [r]"
| "send_of _ = []"

fun retry_of :: "event \<Rightarrow> (Request \<times> int) list" where
  "retry_of (Go_retryRequest r ra s psp dp) = [(r, ra)]"
| "retry_of _ = []"

fun recycle_of :: "event \<Rightarrow> Notification option list" where
  "recycle_of (Recycle n) = [n]"
| "recycle_of _ = []"

fun attempt_of :: "event \<Rightarrow> PushServiceProviderDeliveryPointPair list" where
  "attempt_of (PsmPush psp dp n) = [(psp, dp)]"
| "attempt_of _ = []"

fun lookup_of :: "event \<Rightarrow> string list" where
  "lookup_of (DbGetPairs service sub) = [sub]"
| "lookup_of _ = []"

fun batch_of :: "event \<Rightarrow> string list list" where
  "batch_of (Go_pushBulk r subs) = [subs]"
| "batch_of _ = []"

fun persist_of :: "event \<Rightarrow> (PushServiceProvider + DeliveryPoint) list" where
  "persist_of (ModifyPushServiceProvider psp) = [Inl psp]"
| "persist_of (ModifyDeliveryPoint dp) = [Inr dp]"
| "persist_of _ = []"

fun finish_of :: "event \<Rightarrow> unit list" where
  "finish_of Finish = [()]"
| "finish_of _ = []"

definition responds :: "event list \<Rightarrow> error list" where
  "responds tr = concat (map respond_of tr)"

definition sends :: "event list \<Rightarrow> Request list" where
  "sends tr = concat (map send_of tr)"

definition retries :: "event list \<Rightarrow> (Request \<times> int) list" where
  "retries tr = concat (map retry_of tr)"

definition recycles :: "event list \<Rightarrow> Notification option list" where
  "recycles tr = concat (map recycle_of tr)"

definition attempts :: "event list \<Rightarrow> PushServiceProviderDeliveryPointPair list" where
  "attempts tr = concat (map attempt_of tr)"

definition lookups :: "event list \<Rightarrow> string list" where
  "lookups tr = concat (map lookup_of tr)"

definition batches :: "event list \<Rightarrow> string list list" where
  "batches tr = concat (map batch_of tr)"

definition persists :: "event list \<Rightarrow> (PushServiceProvider + DeliveryPoint) list" where
  "persists tr = concat (map persist_of tr)"

definition finishes :: "event list \<Rightarrow> nat" where
  "finishes tr = length (concat (map finish_of tr))"

text \<open>
  A recovery action is a write to storage, the start of a retry or a request sent on
  the channel. \<open>reported_first\<close> holds of a list of events in which an error reaches
  the response sink before the first recovery action.
\<close>

fun is_recovery :: "event \<Rightarrow> bool" where
  "is_recovery (ModifyPushServiceProvider psp) = True"
| "is_recovery (ModifyDeliveryPoint dp) = True"
| "is_recovery (Go_retryRequest r ra s psp dp) = True"
| "is_recovery (Send r) = True"
| "is_recovery _ = False"

fun reported_first :: "event list \<Rightarrow> bool" where
  "reported_first [] = False"
| "reported_first (Respond e # tr) = True"
| "reported_first (ev # tr) = (if is_recovery ev then False else reported_first tr)"

text \<open>Example values for the instances below.\<close>

definition psp1 :: PushServiceProvider where
  "psp1 = \<lparr>psp_Name = ''gcm:1'', psp_PushServiceName = ''gcm'', psp_String = ''gcm:1:key''\<rparr>"

definition dpA :: DeliveryPoint where
  "dpA = \<lparr>dp_Name = ''A'', dp_String = ''A:regid''\<rparr>"

definition dpB :: DeliveryPoint where
  "dpB = \<lparr>dp_Name = ''B'', dp_String = ''B:regid''\<rparr>"

definition dpC :: DeliveryPoint where
  "dpC = \<lparr>dp_Name = ''C'', dp_String = ''C:regid''\<rparr>"

definition note1 :: Notification where
  "note1 = MkNotification [(''msg'', ''hello'')]"

text \<open>A fan-out request for the given subscribers, and a direct request for one.\<close>

definition fanout_req :: "string list \<Rightarrow> Request" where
  "fanout_req subs =
     Request ''req1'' ACTION_PUSH ''10.0.0.1:80'' ''svc'' subs None None (Some note1) 0 0 None 0"

definition direct_req :: "int \<Rightarrow> 64 word \<Rightarrow> Request" where
  "direct_req n b =
     Request ''req1'' ACTION_PUSH ''10.0.0.1:80'' ''svc'' [''alice''] (Some psp1) (Some dpA)
       (Some note1) n b None 0"

text \<open>A world whose push service manager always answers \<open>r\<close> and whose storage answers \<open>d\<close>.\<close>

definition const_world ::
  "string \<times> error option \<Rightarrow> PushServiceProviderDeliveryPointPair list \<times> error option \<Rightarrow> world" where
  "const_world r d =
     \<lparr>psm_Push = (\<lambda>psp dp n. r), GetPushServiceProviderDeliveryPointPairs = (\<lambda>service sub. d),
      now = 0\<rparr>"

section \<open>Properties\<close>

lemmas obs_defs = responds_def sends_def retries_def recycles_def attempts_def lookups_def
  batches_def persists_def finishes_def

lemmas handler_defs = pushSucc_def pushFail_def pushRetry_def unsubscribe_def recycle_def
  refreshData_def

subsection \<open>The retry scheduler\<close>

text \<open>
  Claim C4. With the default configuration (three retries, initial backoff 3 seconds), a
  chain that starts at \<open>nrRetries = 0\<close> and whose retryable failures carry no
  retry-after value waits 3, 6 and 12 seconds (the sleeps are in nanoseconds) before it
  sends the first, second and third retry request; the requests sent carry the retry
  counts 1, 2, 3 and the backoffs 3, 6, 12; a retryable failure of the third retry
  request, the fourth of the chain, starts no further retry: \<open>retryRequest\<close> does
  nothing.
\<close>

theorem retry_backoff_sequence:
  assumes "nrRetries r0 = 0" and "ra1 \<le> 0" and "ra2 \<le> 0" and "ra3 \<le> 0"
  shows "\<exists>r1 r2 r3.
    retryRequest w1 NewPushProcessor r0 ra1 s psp dp = [Sleep (3 * 1000000000), Send r1] \<and>
    retryRequest w2 NewPushProcessor r1 ra2 s psp dp = [Sleep (6 * 1000000000), Send r2] \<and>
    retryRequest w3 NewPushProcessor r2 ra3 s psp dp = [Sleep (12 * 1000000000), Send r3] \<and>
    retryRequest w4 NewPushProcessor r3 ra4 s psp dp = [] \<and>
    map nrRetries [r1, r2, r3] = [1, 2, 3] \<and>
    map backoffTime [r1, r2, r3] = [3, 6, 12]"
  using assms
  by (simp add: retryRequest_def NewPushProcessor_def init_backoff_time_def Let_def)

theorem retry_backoff_sequence_witness:
  "nrRetries (direct_req 0 0) = 0 \<and>
   (\<exists>r1 r2 r3.
      retryRequest (const_world ('''', None) ([], None)) NewPushProcessor (direct_req 0 0) 0
        ''alice'' psp1 dpA = [Sleep (3 * 1000000000), Send r1] \<and>
      retryRequest (const_world ('''', None) ([], None)) NewPushProcessor r1 0
        ''alice'' psp1 dpA = [Sleep (6 * 1000000000), Send r2] \<and>
      retryRequest (const_world ('''', None) ([], None)) NewPushProcessor r2 0
        ''alice'' psp1 dpA = [Sleep (12 * 1000000000), Send r3] \<and>
      retryRequest (const_world ('''', None) ([], None)) NewPushProcessor r3 0
        ''alice'' psp1 dpA = [] \<and>
      map nrRetries [r1, r2, r3] = [1, 2, 3] \<and>
      map backoffTime [r1, r2, r3] = [3, 6, 12])"
proof -
  have h: "nrRetries (direct_req 0 0) = 0"
    by (simp add: direct_req_def)
  show ?thesis
    using h retry_backoff_sequence [OF h, of 0 0 0] by simp
qed

text \<open>
  Claim C5 says that for every retry-after value greater than 0 the retry waits for that
  value. The wait is \<^verbatim>\<open>time.Duration(waitTime * 1E9)\<close>, an \<^verbatim>\<open>int64\<close> product that
  wraps around: for a retry-after value of 9223372037 seconds the duration is negative,
  and a timer with a negative duration fires at once.
\<close>

theorem large_retry_after_wraps_to_negative_wait:
  "retryRequest (const_world ('''', None) ([], None)) NewPushProcessor (direct_req 0 0)
     9223372037 ''alice'' psp1 dpA =
     [Sleep (word_of_int 9223372037 * 1000000000),
      Send (Request ''req1'' ACTION_PUSH ''10.0.0.1:80'' ''svc'' [''alice''] (Some psp1) (Some dpA)
              (Some note1) 1 3 (Some (direct_req 0 0)) 0)] \<and>
   sint (word_of_int 9223372037 * 1000000000 :: 64 word) = - 9223372036709551616"
  by (simp add: retryRequest_def NewPushProcessor_def direct_req_def const_world_def
      init_backoff_time_def Let_def)

text \<open>
  Up to 9223372036 seconds the number of nanoseconds fits an \<^verbatim>\<open>int64\<close>.
\<close>

lemma duration_in_range:
  assumes "0 < ra" and "ra \<le> 9223372036"
  shows "sint (word_of_int ra * 1000000000 :: 64 word) = ra * 1000000000"
proof -
  have "(word_of_int ra * 1000000000 :: 64 word) = word_of_int (ra * 1000000000)"
    by simp
  moreover have "sint (word_of_int (ra * 1000000000) :: 64 word) = ra * 1000000000"
    using assms by (simp only: sint_sbintrunc') (simp add: signed_take_bit_int_eq_self_iff)
  ultimately show ?thesis
    by (simp only:)
qed

text \<open>
  Claim C5 as amended. When the retry budget is not used up and the failure carries a
  retry-after value greater than 0 and at most 9223372036 seconds, the retry goroutine
  sleeps for exactly that value (in nanoseconds, as a signed 64-bit duration), not for
  the backoff, and the request it sends stores the backoff of the doubling rule: 3 for
  the first retry or after a backoff of 0, twice the previous backoff otherwise. The
  backoff computed at the next failure of that request is again given by the rule from
  the stored backoff, whatever the retry-after values were.
\<close>

theorem retry_after_overrides_wait:
  assumes "nrRetries req < max_nr_retry p" and "0 < retryAfter"
    and "retryAfter \<le> 9223372036"
  shows "\<exists>newreq.
    retryRequest w p req retryAfter s psp dp =
      [Sleep (word_of_int retryAfter * 1000000000), Send newreq] \<and>
    sint (word_of_int retryAfter * 1000000000 :: 64 word) = retryAfter * 1000000000 \<and>
    backoffTime newreq =
      (if nrRetries req = 0 \<or> backoffTime req = 0 then 3 else 2 * backoffTime req) \<and>
    (\<forall>w' ra' s' psp' dp'. 0 \<le> nrRetries req \<longrightarrow> nrRetries newreq < max_nr_retry p \<longrightarrow>
       (\<exists>d r2. retryRequest w' p newreq ra' s' psp' dp' = [Sleep d, Send r2] \<and>
          backoffTime r2 = (if backoffTime newreq = 0 then 3 else 2 * backoffTime newreq)))"
  using assms duration_in_range [of retryAfter]
  by (simp add: retryRequest_def init_backoff_time_def Let_def)

theorem retry_after_overrides_wait_witness:
  "nrRetries (direct_req 0 0) < max_nr_retry NewPushProcessor \<and> (0::int) < 10 \<and>
   (10::int) \<le> 9223372036 \<and>
   (\<exists>newreq.
      retryRequest (const_world ('''', None) ([], None)) NewPushProcessor (direct_req 0 0) 10
        ''alice'' psp1 dpA = [Sleep (10 * 1000000000), Send newreq] \<and>
      sint (10 * 1000000000 :: 64 word) = 10 * 1000000000 \<and>
      backoffTime newreq = 3 \<and>
      (\<exists>d r2. retryRequest (const_world ('''', None) ([], None)) NewPushProcessor newreq 0
          ''alice'' psp1 dpA = [Sleep d, Send r2] \<and> backoffTime r2 = 6))"
proof -
  have h: "nrRetries (direct_req 0 0) < max_nr_retry NewPushProcessor"
    by (simp add: direct_req_def NewPushProcessor_def)
  have h2: "(0::int) < 10" and h3: "(10::int) \<le> 9223372036"
    by simp_all
  from retry_after_overrides_wait [OF h h2 h3, of "const_world ('''', None) ([], None)"
      "''alice''" psp1 dpA]
  obtain newreq where
    n1: "retryRequest (const_world ('''', None) ([], None)) NewPushProcessor (direct_req 0 0) 10
           ''alice'' psp1 dpA = [Sleep (word_of_int 10 * 1000000000), Send newreq]" and
    n0: "sint (word_of_int 10 * 1000000000 :: 64 word) = 10 * 1000000000" and
    n2: "backoffTime newreq =
           (if nrRetries (direct_req 0 0) = 0 \<or> backoffTime (direct_req 0 0) = 0 then 3
            else 2 * backoffTime (direct_req 0 0))" and
    n3: "\<forall>w' ra' s' psp' dp'. 0 \<le> nrRetries (direct_req 0 0) \<longrightarrow>
           nrRetries newreq < max_nr_retry NewPushProcessor \<longrightarrow>
           (\<exists>d r2. retryRequest w' NewPushProcessor newreq ra' s' psp' dp' = [Sleep d, Send r2] \<and>
              backoffTime r2 = (if backoffTime newreq = 0 then 3 else 2 * backoffTime newreq))"
    by auto
  from n1 have n4: "nrRetries newreq = 1"
    by (auto simp: retryRequest_def NewPushProcessor_def direct_req_def Let_def)
  from n2 have n5: "backoffTime newreq = 3"
    by (simp add: direct_req_def)
  from n3 n4 n5 obtain d r2 where
    "retryRequest (const_world ('''', None) ([], None)) NewPushProcessor newreq 0
       ''alice'' psp1 dpA = [Sleep d, Send r2] \<and> backoffTime r2 = 6"
    by (fastforce simp: direct_req_def NewPushProcessor_def)
  with h n0 n1 n5 show ?thesis
    by auto
qed

subsection \<open>One delivery attempt\<close>

text \<open>
  Claim C8. When the push service manager reports an unregistered delivery point, directly
  or as the error left inside a refresh error, the attempt sends exactly one request on the
  channel: it has the id, the sender address and the service of the request at hand, the
  action \<open>ACTION_UNSUBSCRIBE\<close>, the one subscriber as its subscriber list and the given
  delivery point. The attempt starts no retry.
\<close>

theorem unregistered_unsubscribes_once:
  assumes "psm_Push w psp dp (Notification req) = (msgid, Some e)"
    and "e = UnregisteredError \<or> e = RefreshDataError re_psp re_dp (Some UnregisteredError)"
  shows "sends (pushToDeliveryPoint w p req subscriber psp dp) =
           [Request (ID req) ACTION_UNSUBSCRIBE (RequestSenderAddr req) (Service req)
              [subscriber] None (Some dp) None 0 0 None (now w)] \<and>
         retries (pushToDeliveryPoint w p req subscriber psp dp) = []"
  using assms
  by (auto simp: pushToDeliveryPoint_def handler_defs obs_defs split: option.splits)

theorem unregistered_unsubscribes_once_witness:
  "sends (pushToDeliveryPoint (const_world (''m1'', Some UnregisteredError) ([], None))
            NewPushProcessor (direct_req 0 0) ''alice'' psp1 dpA) =
     [Request ''req1'' ACTION_UNSUBSCRIBE ''10.0.0.1:80'' ''svc'' [''alice''] None (Some dpA)
        None 0 0 None 0] \<and>
   retries (pushToDeliveryPoint (const_world (''m1'', Some UnregisteredError) ([], None))
              NewPushProcessor (direct_req 0 0) ''alice'' psp1 dpA) = []"
  using unregistered_unsubscribes_once [where w = "const_world (''m1'', Some UnregisteredError) ([], None)"
      and psp = psp1 and dp = dpA and req = "direct_req 0 0" and msgid = "''m1''"
      and e = UnregisteredError and p = NewPushProcessor and subscriber = "''alice''"]
  by (simp add: const_world_def direct_req_def)

text \<open>
  Claim C9. When the push service manager reports a refresh error that wraps no other
  error, the attempt writes the refreshed provider and the refreshed delivery point to
  storage (each one only if present), then takes the success path: it logs the success
  and recycles the notification. Nothing is given to the response sink, no request is
  sent and no retry is started.
\<close>

theorem refresh_without_error_is_success:
  assumes "psm_Push w psp dp (Notification req) =
             (msgid, Some (RefreshDataError re_psp re_dp None))"
  shows "pushToDeliveryPoint w p req subscriber psp dp =
           PsmPush psp dp (Notification req) #
           fst (refreshData req (psp_PushServiceName psp) re_psp re_dp None) @
           pushSucc req subscriber psp dp msgid \<and>
         persists (pushToDeliveryPoint w p req subscriber psp dp) =
           (case re_psp of None \<Rightarrow> [] | Some x \<Rightarrow> [Inl x]) @
           (case re_dp of None \<Rightarrow> [] | Some y \<Rightarrow> [Inr y]) \<and>
         responds (pushToDeliveryPoint w p req subscriber psp dp) = [] \<and>
         sends (pushToDeliveryPoint w p req subscriber psp dp) = [] \<and>
         retries (pushToDeliveryPoint w p req subscriber psp dp) = [] \<and>
         recycles (pushToDeliveryPoint w p req subscriber psp dp) = [Notification req]"
  using assms
  by (auto simp: pushToDeliveryPoint_def handler_defs obs_defs split: option.splits)

theorem refresh_without_error_is_success_witness:
  "pushToDeliveryPoint
     (const_world (''m1'', Some (RefreshDataError (Some psp1) (Some dpB) None)) ([], None))
     NewPushProcessor (direct_req 0 0) ''alice'' psp1 dpA =
     [PsmPush psp1 dpA (Some note1),
      ModifyPushServiceProvider psp1, Log Info ''UpdatePushServiceProvider'',
      ModifyDeliveryPoint dpB, Log Info ''UpdateDeliveryPoint'',
      Log Info ''PushSuccess'', Recycle (Some note1)] \<and>
   responds (pushToDeliveryPoint
     (const_world (''m1'', Some (RefreshDataError (Some psp1) (Some dpB) None)) ([], None))
     NewPushProcessor (direct_req 0 0) ''alice'' psp1 dpA) = []"
  using refresh_without_error_is_success [where
      w = "const_world (''m1'', Some (RefreshDataError (Some psp1) (Some dpB) None)) ([], None)"
      and psp = psp1 and dp = dpA and req = "direct_req 0 0" and msgid = "''m1''"
      and re_psp = "Some psp1" and re_dp = "Some dpB"
      and p = NewPushProcessor and subscriber = "''alice''"]
  by (simp add: const_world_def direct_req_def handler_defs obs_defs)

text \<open>
  The notification is recycled once, as the last effect, when the attempt succeeds and
  when it fails with an error that is neither retryable nor an unregistered delivery point.
\<close>

lemma success_and_failure_recycle_once:
  assumes "psm_Push w psp dp (Notification req) = (msgid, r)"
    and "r = None \<or> r = Some (OtherError m)"
  shows "recycles (pushToDeliveryPoint w p req subscriber psp dp) = [Notification req] \<and>
         last (pushToDeliveryPoint w p req subscriber psp dp) = Recycle (Notification req)"
  using assms
  by (auto simp: pushToDeliveryPoint_def handler_defs obs_defs)

text \<open>
  Claim C3 asks for the notification to be recycled exactly once per chain of attempts,
  after success or a terminal failure, an unregistered delivery point included. Two
  chains end without any recycling. A direct request whose push reports an unregistered
  delivery point responds, sends the unsubscribe request and finishes. A direct request
  that has used its three retries and meets a retryable failure once more responds and
  starts the retry goroutine, which returns at once. Neither list of events holds a
  \<open>Recycle\<close>.
\<close>

theorem unregistered_or_exhausted_chain_never_recycles:
  "Process (const_world (''m1'', Some UnregisteredError) ([], None)) NewPushProcessor
     (direct_req 0 0) =
     Some ([PsmPush psp1 dpA (Some note1), Respond UnregisteredError,
            Send (Request ''req1'' ACTION_UNSUBSCRIBE ''10.0.0.1:80'' ''svc'' [''alice''] None
                    (Some dpA) None 0 0 None 0),
            Finish], None) \<and>
   Process (const_world (''m1'', Some (RetryError 0)) ([], None)) NewPushProcessor
     (direct_req 3 12) =
     Some ([PsmPush psp1 dpA (Some note1),
            Respond (OtherError
              ''PushServiceProvider=gcm:1 Subscriber=alice DeliveryPoint=A Retry''),
            Go_retryRequest (direct_req 3 12) 0 ''alice'' psp1 dpA,
            Log Warn ''PushRetry'', Finish], None) \<and>
   goroutine (const_world (''m1'', Some (RetryError 0)) ([], None)) NewPushProcessor
     (Go_retryRequest (direct_req 3 12) 0 ''alice'' psp1 dpA) = []"
  by (simp add: Process_def pushToDeliveryPoint_def handler_defs const_world_def direct_req_def
      goroutine_def retryRequest_def NewPushProcessor_def psp1_def dpA_def)

text \<open>
  Claim C2 says that every failed attempt reports its error to the response sink before
  any recovery action, the writing of refreshed credentials included. It fails for a
  refresh error that wraps another error: \<open>refreshData\<close> runs first, so the refreshed
  provider is written to storage before the wrapped error is given to the response sink.
\<close>

theorem refresh_persists_before_responding:
  "pushToDeliveryPoint
     (const_world (''m1'', Some (RefreshDataError (Some psp1) None (Some (OtherError ''expired''))))
        ([], None))
     NewPushProcessor (direct_req 0 0) ''alice'' psp1 dpA =
     [PsmPush psp1 dpA (Some note1),
      ModifyPushServiceProvider psp1, Log Info ''UpdatePushServiceProvider'',
      Respond (OtherError ''expired''),
      Log Error ''PushFail'', Log Debug ''PushFailDebug'', Recycle (Some note1)] \<and>
   \<not> reported_first (pushToDeliveryPoint
     (const_world (''m1'', Some (RefreshDataError (Some psp1) None (Some (OtherError ''expired''))))
        ([], None))
     NewPushProcessor (direct_req 0 0) ''alice'' psp1 dpA)"
  by (simp add: pushToDeliveryPoint_def handler_defs const_world_def direct_req_def)

text \<open>
  Claim C2 as amended. An error that is not a refresh error is given to the response
  sink before any retry is started or any request is sent, and nothing is written to
  storage. For a refresh error that wraps another error, the attempt first runs
  \<open>refreshData\<close>, which writes the refreshed credentials to storage, and what follows
  gives the wrapped error to the response sink before any retry is started or any request
  is sent, and writes nothing more to storage.
\<close>

theorem error_reported_before_retry_or_unsubscribe:
  assumes "psm_Push w psp dp (Notification req) = (msgid, Some e)"
  shows "((\<forall>re_psp re_dp re_other. e \<noteq> RefreshDataError re_psp re_dp re_other) \<longrightarrow>
           reported_first (pushToDeliveryPoint w p req subscriber psp dp) \<and>
           persists (pushToDeliveryPoint w p req subscriber psp dp) = []) \<and>
         (\<forall>re_psp re_dp e'. e = RefreshDataError re_psp re_dp (Some e') \<longrightarrow>
           (\<exists>rest. pushToDeliveryPoint w p req subscriber psp dp =
              PsmPush psp dp (Notification req) #
              fst (refreshData req (psp_PushServiceName psp) re_psp re_dp (Some e')) @ rest \<and>
              reported_first rest \<and> persists rest = []))"
proof (intro conjI allI impI)
  assume "\<forall>re_psp re_dp re_other. e \<noteq> RefreshDataError re_psp re_dp re_other"
  with assms show "reported_first (pushToDeliveryPoint w p req subscriber psp dp)"
    by (cases e) (simp_all add: pushToDeliveryPoint_def handler_defs)
next
  assume "\<forall>re_psp re_dp re_other. e \<noteq> RefreshDataError re_psp re_dp re_other"
  with assms show "persists (pushToDeliveryPoint w p req subscriber psp dp) = []"
    by (cases e) (simp_all add: pushToDeliveryPoint_def handler_defs obs_defs)
next
  fix re_psp re_dp e'
  assume "e = RefreshDataError re_psp re_dp (Some e')"
  with assms show "\<exists>rest. pushToDeliveryPoint w p req subscriber psp dp =
              PsmPush psp dp (Notification req) #
              fst (refreshData req (psp_PushServiceName psp) re_psp re_dp (Some e')) @ rest \<and>
              reported_first rest \<and> persists rest = []"
    by (cases e') (simp_all add: pushToDeliveryPoint_def handler_defs obs_defs)
qed

theorem error_reported_before_retry_or_unsubscribe_witness:
  "reported_first (pushToDeliveryPoint (const_world (''m1'', Some (RetryError 10)) ([], None))
     NewPushProcessor (direct_req 0 0) ''alice'' psp1 dpA) \<and>
   (\<exists>rest. pushToDeliveryPoint
      (const_world (''m1'', Some (RefreshDataError (Some psp1) None (Some UnregisteredError)))
         ([], None))
      NewPushProcessor (direct_req 0 0) ''alice'' psp1 dpA =
      PsmPush psp1 dpA (Some note1) #
      [ModifyPushServiceProvider psp1, Log Info ''UpdatePushServiceProvider''] @ rest \<and>
      reported_first rest \<and> persists rest = [])"
  using error_reported_before_retry_or_unsubscribe [where
      w = "const_world (''m1'', Some (RetryError 10)) ([], None)" and psp = psp1 and dp = dpA
      and req = "direct_req 0 0" and msgid = "''m1''" and e = "RetryError 10"
      and p = NewPushProcessor and subscriber = "''alice''"]
    error_reported_before_retry_or_unsubscribe [where
      w = "const_world (''m1'', Some (RefreshDataError (Some psp1) None (Some UnregisteredError)))
             ([], None)" and psp = psp1 and dp = dpA
      and req = "direct_req 0 0" and msgid = "''m1''"
      and e = "RefreshDataError (Some psp1) None (Some UnregisteredError)"
      and p = NewPushProcessor and subscriber = "''alice''"]
  by (simp add: const_world_def direct_req_def refreshData_def)

text \<open>
  Every attempt calls the push service manager exactly once, as its first effect, and
  neither looks a subscriber up nor finishes the request.
\<close>

lemma pushToDeliveryPoint_shape:
  "\<exists>tail. pushToDeliveryPoint w p req subscriber psp dp =
            PsmPush psp dp (Notification req) # tail \<and>
          attempts tail = [] \<and> lookups tail = [] \<and> finishes tail = 0"
proof (cases "psm_Push w psp dp (Notification req)")
  case (Pair msgid err)
  show ?thesis
  proof (cases err)
    case None
    with Pair show ?thesis
      by (simp add: pushToDeliveryPoint_def handler_defs obs_defs)
  next
    case (Some e)
    show ?thesis
    proof (cases e)
      case (RefreshDataError a b c)
      show ?thesis
      proof (cases c)
        case None
        with Pair Some RefreshDataError show ?thesis
          by (cases a; cases b) (simp_all add: pushToDeliveryPoint_def handler_defs obs_defs)
      next
        case inner: (Some e')
        with Pair Some RefreshDataError show ?thesis
          by (cases e'; cases a; cases b)
            (simp_all add: pushToDeliveryPoint_def handler_defs obs_defs)
      qed
    qed (use Pair Some in \<open>simp_all add: pushToDeliveryPoint_def handler_defs obs_defs\<close>)
  qed
qed

lemma attempts_pushToDeliveryPoint:
  "attempts (pushToDeliveryPoint w p req subscriber psp dp) = [(psp, dp)]"
  using pushToDeliveryPoint_shape [of w p req subscriber psp dp]
  by (auto simp: attempts_def)

lemma lookups_pushToDeliveryPoint:
  "lookups (pushToDeliveryPoint w p req subscriber psp dp) = []"
  using pushToDeliveryPoint_shape [of w p req subscriber psp dp]
  by (auto simp: lookups_def)

lemma finishes_pushToDeliveryPoint:
  "finishes (pushToDeliveryPoint w p req subscriber psp dp) = 0"
  using pushToDeliveryPoint_shape [of w p req subscriber psp dp]
  by (auto simp: finishes_def)

lemma attempts_append: "attempts (xs @ ys) = attempts xs @ attempts ys"
  by (simp add: attempts_def)

subsection \<open>One subscriber: each delivery point name once\<close>

text \<open>The inner loop leaves \<open>pushit\<close> true exactly when the name is not in \<open>chked_dps\<close>.\<close>

lemma pushit_fold:
  "fold (\<lambda>d pushit. if d = n then False else pushit) chked_dps b = (b \<and> n \<notin> set chked_dps)"
  by (induction chked_dps arbitrary: b) auto

lemma attempts_push_loop:
  "attempts (push_loop w p req subscriber pairs chked_dps) =
     [pairs ! i. i \<leftarrow> [0..<length pairs],
        dp_Name (snd (pairs ! i)) \<notin> set chked_dps \<union> (dp_Name \<circ> snd) ` set (take i pairs)]"
proof (induction pairs arbitrary: chked_dps)
  case Nil
  then show ?case by (simp add: attempts_def)
next
  case (Cons pdpair rest)
  have shift: "[0..<length (pdpair # rest)] = 0 # map Suc [0..<length rest]"
    by (simp add: upt_conv_Cons map_Suc_upt del: upt_Suc)
  show ?case
    unfolding shift
    by (auto simp: Cons.IH pushit_fold attempts_append attempts_pushToDeliveryPoint Let_def
        o_def simp del: upt_Suc intro!: arg_cong [where f = concat] map_cong)
qed

text \<open>
  Claim C6. When the storage lookup gives a list of pairs that is not empty, \<open>push\<close>
  attempts, in the order of the list, exactly the pairs whose delivery point name does
  not occur at an earlier position of the list: a pair with the name of an earlier pair
  is skipped. So for a list with the names A, B, A, C (three different names) there are
  three attempts, to A, B and C in that order.
\<close>

theorem push_attempts_each_name_once:
  assumes "GetPushServiceProviderDeliveryPointPairs w (Service req) subscriber = (pairs, err)"
    and "pairs \<noteq> []"
  shows "attempts (push w p req subscriber wg) =
           [pairs ! i. i \<leftarrow> [0..<length pairs],
              dp_Name (snd (pairs ! i)) \<notin> (dp_Name \<circ> snd) ` set (take i pairs)] \<and>
         (\<forall>A B C. map (dp_Name \<circ> snd) pairs = [A, B, A, C] \<longrightarrow> distinct [A, B, C] \<longrightarrow>
            map (dp_Name \<circ> snd) (attempts (push w p req subscriber wg)) = [A, B, C])"
proof -
  have a: "attempts (push w p req subscriber wg) = attempts (push_loop w p req subscriber pairs [])"
    using assms by (cases err) (simp_all add: push_def attempts_def)
  have "\<And>A B C. map (dp_Name \<circ> snd) pairs = [A, B, A, C] \<Longrightarrow> distinct [A, B, C] \<Longrightarrow>
      map (dp_Name \<circ> snd) (attempts (push_loop w p req subscriber pairs [])) = [A, B, C]"
  proof -
    fix A B C
    assume m: "map (dp_Name \<circ> snd) pairs = [A, B, A, C]" and d: "distinct [A, B, C]"
    from m obtain p1 p2 p3 p4 where ps: "pairs = [p1, p2, p3, p4]"
      by auto
    with m d show "map (dp_Name \<circ> snd) (attempts (push_loop w p req subscriber pairs [])) = [A, B, C]"
      by (auto simp: attempts_append attempts_pushToDeliveryPoint attempts_def [of "[]"])
  qed
  with a show ?thesis
    by (simp add: attempts_push_loop)
qed

theorem push_attempts_each_name_once_witness:
  "map (dp_Name \<circ> snd) (attempts (push
      (const_world (''m1'', None) ([(psp1, dpA), (psp1, dpB), (psp1, dpA), (psp1, dpC)], None))
      NewPushProcessor (fanout_req [''alice'']) ''alice'' False)) = [''A'', ''B'', ''C'']"
proof -
  let ?w = "const_world (''m1'', None)
              ([(psp1, dpA), (psp1, dpB), (psp1, dpA), (psp1, dpC)], None)"
  have h1: "GetPushServiceProviderDeliveryPointPairs ?w (Service (fanout_req [''alice'']))
      ''alice'' = ([(psp1, dpA), (psp1, dpB), (psp1, dpA), (psp1, dpC)], None)"
    by (simp add: const_world_def)
  have h2: "[(psp1, dpA), (psp1, dpB), (psp1, dpA), (psp1, dpC)] \<noteq> []"
    by simp
  from push_attempts_each_name_once [OF h1 h2, of NewPushProcessor False, THEN conjunct2,
      rule_format, of "''A''" "''B''" "''C''"]
  show ?thesis
    by (simp add: dpA_def dpB_def dpC_def)
qed

subsection \<open>One subscriber: a storage error with no pairs\<close>

text \<open>
  Claim C10. When the storage lookup for a subscriber gives an error together with an
  empty list of pairs, \<open>push\<close> gives two errors to the response sink, first the storage
  error and then the error that the subscriber has no device: the branch for the storage
  error does not return. No push is attempted.
\<close>

theorem storage_error_then_no_device:
  assumes "GetPushServiceProviderDeliveryPointPairs w (Service req) subscriber = ([], Some e)"
  shows "push w p req subscriber wg =
           [DbGetPairs (Service req) subscriber, Log Error ''PushFail'', Respond e,
            Log Warn ''PushFail'',
            Respond (OtherError (''Subscriber='' @ subscriber @ '' NoDevice''))] @
           (if wg then [WgDone] else []) \<and>
         responds (push w p req subscriber wg) =
           [e, OtherError (''Subscriber='' @ subscriber @ '' NoDevice'')] \<and>
         attempts (push w p req subscriber wg) = []"
  using assms
  by (auto simp: push_def obs_defs)

theorem storage_error_then_no_device_witness:
  "responds (push (const_world ('''', None) ([], Some (OtherError ''db down'')))
      NewPushProcessor (fanout_req [''alice'', ''bob'']) ''alice'' True) =
     [OtherError ''db down'', OtherError ''Subscriber=alice NoDevice''] \<and>
   attempts (push (const_world ('''', None) ([], Some (OtherError ''db down'')))
      NewPushProcessor (fanout_req [''alice'', ''bob'']) ''alice'' True) = []"
  using storage_error_then_no_device [where
      w = "const_world ('''', None) ([], Some (OtherError ''db down''))"
      and req = "fanout_req [''alice'', ''bob'']" and subscriber = "''alice''"
      and e = "OtherError ''db down''" and p = NewPushProcessor and wg = True]
  by (simp add: const_world_def obs_defs)

subsection \<open>The dispatcher: the loop of the batched path\<close>

text \<open>
  With a positive batch size \<open>m\<close> the loop runs \<open>k\<close> times from position \<open>q\<close> to the
  bound \<open>q + k * m\<close>, and starts one \<^verbatim>\<open>pushBulk\<close> goroutine for each slice of \<open>m\<close>
  subscribers.
\<close>

lemma slice_nat:
  "q + m \<le> length s \<Longrightarrow> slice s (int q) (int q + int m) = Some (take m (drop q s))"
  by (simp add: slice_def)

lemma Process_loop_steps:
  assumes "0 < m" and "q + k * m \<le> length (Subscribers req)"
  shows "Process_loop req (int m) (int (q + k * m)) (int q) acc =
           Some (acc @ concat (map (\<lambda>i. [WgAdd,
                    Go_pushBulk req (take m (drop (q + i * m) (Subscribers req)))]) [0..<k]),
                 Some (int (q + k * m)))"
  using assms
proof (induction k arbitrary: q acc)
  case 0
  then show ?case
    by (subst Process_loop.simps) simp
next
  case (Suc k)
  have shift: "[0..<Suc k] = 0 # map Suc [0..<k]"
    by (simp add: upt_conv_Cons map_Suc_upt del: upt_Suc)
  have le: "q + m \<le> length (Subscribers req)"
    using Suc.prems by simp
  have next_q: "(q + m) + k * m \<le> length (Subscribers req)"
    using Suc.prems by simp
  have "q < q + Suc k * m"
    using Suc.prems by simp
  then have lt: "int q < int (q + Suc k * m)"
    by (simp only: of_nat_less_iff)
  have "Process_loop req (int m) (int (q + Suc k * m)) (int q) acc =
        Process_loop req (int m) (int ((q + m) + k * m)) (int (q + m))
          (acc @ [WgAdd, Go_pushBulk req (take m (drop q (Subscribers req)))])"
    using lt by (subst Process_loop.simps) (simp add: slice_nat [OF le] add.assoc)
  also have "\<dots> = Some ((acc @ [WgAdd, Go_pushBulk req (take m (drop q (Subscribers req)))]) @
      concat (map (\<lambda>i. [WgAdd,
         Go_pushBulk req (take m (drop ((q + m) + i * m) (Subscribers req)))]) [0..<k]),
      Some (int ((q + m) + k * m)))"
    by (rule Suc.IH [OF Suc.prems(1) next_q])
  finally show ?case
    unfolding shift by (simp add: o_def ac_simps)
qed

lemma go_quot_nat: "go_quot (int n) (int c) = int (n div c)"
  by (simp add: go_quot_def zdiv_int sgn_if)

lemma go_rem_nat: "go_rem (int n) (int c) = int (n mod c)"
  by (simp add: go_rem_def zmod_int sgn_if)

lemma concat_chunks:
  "k * m \<le> length xs \<Longrightarrow>
   concat (map (\<lambda>i. take m (drop (i * m) xs)) [0..<k]) = take (k * m) xs"
proof (induction k)
  case 0
  then show ?case by simp
next
  case (Suc k)
  then have "concat (map (\<lambda>i. take m (drop (i * m) xs)) [0..<k]) = take (k * m) xs"
    by simp
  moreover have "take (Suc k * m) xs = take (k * m + m) xs"
    by (simp add: add.commute)
  ultimately show ?case
    by (simp add: take_add del: mult_Suc)
qed

text \<open>
  What the workers do: \<open>push\<close> looks its subscriber up once, \<open>pushBulk\<close> looks up the
  subscribers of its batch in order, and no goroutine started by the processor finishes
  a request.
\<close>

lemma lookups_Nil: "lookups [] = []"
  by (simp add: lookups_def)

lemma lookups_append: "lookups (xs @ ys) = lookups xs @ lookups ys"
  by (simp add: lookups_def)

lemma finishes_append: "finishes (xs @ ys) = finishes xs + finishes ys"
  by (simp add: finishes_def)

lemma push_loop_quiet:
  "lookups (push_loop w p req subscriber pairs chked_dps) = [] \<and>
   finishes (push_loop w p req subscriber pairs chked_dps) = 0"
proof (induction pairs arbitrary: chked_dps)
  case Nil
  then show ?case by (simp add: obs_defs)
next
  case (Cons pdpair rest)
  then show ?case
    by (simp add: Let_def lookups_append finishes_append lookups_pushToDeliveryPoint
        finishes_pushToDeliveryPoint)
qed

lemma push_lookup_and_no_finish:
  "lookups (push w p req subscriber wg) = [subscriber] \<and>
   finishes (push w p req subscriber wg) = 0"
proof (cases "GetPushServiceProviderDeliveryPointPairs w (Service req) subscriber")
  case (Pair pairs err)
  have "lookups (push_loop w p req subscriber pairs []) = []"
    and "finishes (push_loop w p req subscriber pairs []) = 0"
    using push_loop_quiet [of w p req subscriber pairs "[]"] by simp_all
  with Pair show ?thesis
    by (cases err; cases wg)
      (simp_all add: push_def lookups_append finishes_append, simp_all add: obs_defs)
qed

lemma pushBulk_lookups_and_no_finish:
  "lookups (pushBulk w p req subscribers wg) = subscribers \<and>
   finishes (pushBulk w p req subscribers wg) = 0"
proof -
  have "lookups (concat (map (\<lambda>sub. push w p req sub False) subscribers)) = subscribers \<and>
        finishes (concat (map (\<lambda>sub. push w p req sub False) subscribers)) = 0"
  proof (induction subscribers)
    case Nil
    then show ?case by (simp add: obs_defs)
  next
    case (Cons sub subscribers)
    then show ?case
      by (simp add: lookups_append finishes_append push_lookup_and_no_finish)
  qed
  then show ?thesis
    by (cases wg) (simp_all add: pushBulk_def lookups_append finishes_append, simp_all add: obs_defs)
qed

lemma goroutine_never_finishes: "finishes (goroutine w p ev) = 0"
proof (cases ev)
  case (Go_retryRequest r ra s psp dp)
  then show ?thesis
    by (simp add: goroutine_def retryRequest_def Let_def obs_defs)
next
  case (Go_push r s)
  then show ?thesis
    by (simp add: goroutine_def push_lookup_and_no_finish)
next
  case (Go_pushBulk r subs)
  then show ?thesis
    by (simp add: goroutine_def pushBulk_lookups_and_no_finish)
qed (simp_all add: goroutine_def obs_defs)

lemma batches_append: "batches (xs @ ys) = batches xs @ batches ys"
  by (simp add: batches_def)

lemma spawn_events:
  "batches (concat (map (\<lambda>i. [WgAdd, Go_pushBulk req (f i)]) is)) = map f is \<and>
   finishes (concat (map (\<lambda>i. [WgAdd, Go_pushBulk req (f i)]) is)) = 0 \<and>
   concat (map (\<lambda>ev. lookups (goroutine w p ev))
     (concat (map (\<lambda>i. [WgAdd, Go_pushBulk req (f i)]) is))) = concat (map f is)"
  by (induction "is")
    (simp_all add: batches_def finishes_def goroutine_def lookups_Nil
      pushBulk_lookups_and_no_finish [unfolded finishes_def])

lemma Process_fanout:
  assumes "length (Subscribers req) \<noteq> 1 \<or> PushServiceProvider req = None \<or>
           DeliveryPoint req = None"
  shows "Process w p req =
     (if int (length (Subscribers req)) \<le> max_nr_gorountines p
      then Some (concat (map (\<lambda>sub. [WgAdd, Go_push req sub]) (Subscribers req)) @
                 [WgWait, Finish], None)
      else if max_nr_gorountines p = 0
      then Some ([Finish], Some ''integer divide by zero'')
      else (case Process_loop req
                  (go_quot (int (length (Subscribers req))) (max_nr_gorountines p))
                  (int (length (Subscribers req)) -
                   go_rem (int (length (Subscribers req))) (max_nr_gorountines p)) 0 [] of
              None \<Rightarrow> None
            | Some (evs, None) \<Rightarrow> Some (evs @ [Finish], Some ''slice bounds out of range'')
            | Some (evs, Some pos) \<Rightarrow>
                if pos < int (length (Subscribers req))
                then (case slice (Subscribers req) pos (int (length (Subscribers req))) of
                        None \<Rightarrow>
                          Some (evs @ [WgAdd, Finish], Some ''slice bounds out of range'')
                      | Some batch \<Rightarrow>
                          Some (evs @ [WgAdd, Go_pushBulk req batch] @ [WgWait, Finish], None))
                else Some (evs @ [WgWait, Finish], None)))"
proof -
  have "\<not> (\<exists>s psp dp. Subscribers req = [s] \<and> PushServiceProvider req = Some psp \<and>
           DeliveryPoint req = Some dp)"
    using assms by auto
  then show ?thesis
    unfolding Process_def Let_def
    by (cases "Subscribers req"; cases "tl (Subscribers req)"; cases "PushServiceProvider req";
        cases "DeliveryPoint req") simp_all
qed

lemma Process_batched:
  assumes c: "0 < c" and n: "c < length (Subscribers req)"
    and cap: "max_nr_gorountines p = int c"
  shows "Process w p req =
    Some (concat (map (\<lambda>i. [WgAdd, Go_pushBulk req
              (take (length (Subscribers req) div c)
                 (drop (i * (length (Subscribers req) div c)) (Subscribers req)))]) [0..<c]) @
          (if length (Subscribers req) mod c = 0 then []
           else [WgAdd, Go_pushBulk req
              (drop (c * (length (Subscribers req) div c)) (Subscribers req))]) @
          [WgWait, Finish], None)"
proof -
  let ?subs = "Subscribers req"
  let ?n = "length ?subs"
  let ?m = "?n div c"
  have m: "0 < ?m"
    using c n by (simp add: div_greater_zero_iff)
  have le: "0 + c * ?m \<le> ?n"
    by simp
  have bound: "int ?n - int (?n mod c) = int (c * ?m)"
    by (simp add: minus_mod_eq_mult_div [symmetric])
  have loop: "Process_loop req (int ?m) (int (c * ?m)) 0 [] =
      Some (concat (map (\<lambda>i. [WgAdd,
                    Go_pushBulk req (take ?m (drop (i * ?m) ?subs))]) [0..<c]),
            Some (int (c * ?m)))"
    using Process_loop_steps [OF m le, of "[]"] by (simp del: of_nat_mult)
  have "(c * ?m < ?n) = (?n mod c \<noteq> 0)"
    using c by (metis le add_0 mod_eq_0_iff_dvd dvd_div_mult_self mult.commute
        nat_less_le dvd_triv_left)
  then have rest: "(int (c * ?m) < int ?n) = (?n mod c \<noteq> 0)"
    by (simp only: of_nat_less_iff)
  have tail: "slice ?subs (int (c * ?m)) (int ?n) = Some (drop (c * ?m) ?subs)"
    using le by (simp add: slice_def del: of_nat_mult)
  have "Process w p req =
     (case Process_loop req (int ?m) (int ?n - int (?n mod c)) 0 [] of
        None \<Rightarrow> None
      | Some (evs, None) \<Rightarrow> Some (evs @ [Finish], Some ''slice bounds out of range'')
      | Some (evs, Some pos) \<Rightarrow>
          if pos < int ?n
          then (case slice ?subs pos (int ?n) of
                  None \<Rightarrow> Some (evs @ [WgAdd, Finish], Some ''slice bounds out of range'')
                | Some batch \<Rightarrow>
                    Some (evs @ [WgAdd, Go_pushBulk req batch] @ [WgWait, Finish], None))
          else Some (evs @ [WgWait, Finish], None))"
    using c n by (subst Process_fanout) (simp_all add: cap go_quot_nat go_rem_nat)
  also have "\<dots> = Some (concat (map (\<lambda>i. [WgAdd, Go_pushBulk req
              (take ?m (drop (i * ?m) ?subs))]) [0..<c]) @
          (if ?n mod c = 0 then [] else [WgAdd, Go_pushBulk req (drop (c * ?m) ?subs)]) @
          [WgWait, Finish], None)"
    by (simp add: bound loop rest tail del: of_nat_mult of_nat_less_iff)
  finally show ?thesis .
qed

lemma lookups_goroutine:
  "lookups (goroutine w p WgAdd) = []"
  "lookups (goroutine w p WgWait) = []"
  "lookups (goroutine w p Finish) = []"
  "lookups (goroutine w p (Go_pushBulk req subs)) = subs"
  by (simp_all add: goroutine_def lookups_Nil pushBulk_lookups_and_no_finish)

text \<open>
  The batched path for a positive cap smaller than the number of subscribers.
\<close>

lemma Process_batches_general:
  assumes "0 < max_nr_gorountines p"
    and "max_nr_gorountines p < int (length (Subscribers req))"
  shows "let c = nat (max_nr_gorountines p); subs = Subscribers req; n = length subs;
             m = n div c
         in \<exists>tr. Process w p req = Some (tr, None) \<and>
              batches tr = map (\<lambda>i. take m (drop (i * m) subs)) [0..<c] @
                           (if n mod c = 0 then [] else [drop (c * m) subs]) \<and>
              map length (batches tr) = replicate c m @ (if n mod c = 0 then [] else [n mod c]) \<and>
              concat (batches tr) = subs \<and>
              concat (map (\<lambda>ev. lookups (goroutine w p ev)) tr) = subs"
proof -
  let ?c = "nat (max_nr_gorountines p)"
  let ?subs = "Subscribers req"
  let ?n = "length ?subs"
  let ?m = "?n div ?c"
  let ?chunks = "map (\<lambda>i. take ?m (drop (i * ?m) ?subs)) [0..<?c]"
  let ?last = "if ?n mod ?c = 0 then [] else [drop (?c * ?m) ?subs]"
  let ?tr = "concat (map (\<lambda>i. [WgAdd, Go_pushBulk req (take ?m (drop (i * ?m) ?subs))]) [0..<?c]) @
          (if ?n mod ?c = 0 then [] else [WgAdd, Go_pushBulk req (drop (?c * ?m) ?subs)]) @
          [WgWait, Finish]"
  from assms have c: "0 < ?c" and n: "?c < ?n" and cap: "max_nr_gorountines p = int ?c"
    by simp_all
  have P: "Process w p req = Some (?tr, None)"
    by (rule Process_batched [OF c n cap])
  have le: "?c * ?m \<le> ?n"
    by simp
  have B: "batches ?tr = ?chunks @ ?last"
    by (simp add: batches_append spawn_events) (simp add: batches_def)
  have each: "map length ?chunks = replicate ?c ?m"
  proof -
    have "\<And>i. i < ?c \<Longrightarrow> length (take ?m (drop (i * ?m) ?subs)) = ?m"
    proof -
      fix i assume "i < ?c"
      then have "Suc i * ?m \<le> ?c * ?m"
        by (intro mult_le_mono1) simp
      then have "i * ?m + ?m \<le> ?c * ?m"
        by simp
      from this le have "i * ?m + ?m \<le> ?n"
        by (rule order_trans)
      then show "length (take ?m (drop (i * ?m) ?subs)) = ?m"
        by simp
    qed
    then show ?thesis
      by (intro nth_equalityI) (simp_all del: length_take length_drop)
  qed
  have lastlen: "?n - ?c * ?m = ?n mod ?c"
    by (simp add: minus_mult_div_eq_mod)
  have L: "map length (batches ?tr) = replicate ?c ?m @ (if ?n mod ?c = 0 then [] else [?n mod ?c])"
    by (simp add: B each lastlen del: map_map)
  have whole: "concat ?chunks = take (?c * ?m) ?subs"
    by (rule concat_chunks [OF le])
  have full: "?n mod ?c = 0 \<Longrightarrow> take (?c * ?m) ?subs = ?subs"
    using lastlen by simp
  have C: "concat (batches ?tr) = ?subs"
    by (simp add: B whole full del: map_map)
  have K: "concat (map (\<lambda>ev. lookups (goroutine w p ev)) ?tr) = concat (?chunks @ ?last)"
    by (simp add: spawn_events lookups_goroutine)
  from P B L C K show ?thesis
    unfolding Let_def by (intro exI [of _ ?tr]) (simp only: B [symmetric] simp_thms)
qed

lemma two_chunks: "[0..<2] = [0, 1]" "replicate 2 x = [x, x]"
  by (simp_all add: numeral_2_eq_2)

text \<open>
  Claim C1: a request with more subscribers than the cap is split into exactly cap
  batches, the last of which takes the remainder as well, so that no more than
  \<open>max_nr_gorountines\<close> workers run. The code misses this by one. The loop starts cap
  goroutines and the branch after it starts one more for the remainder: with a cap of 2
  and five subscribers the dispatcher starts three batch goroutines, for 2, 2 and 1
  subscribers; with the cap 1024 of \<open>NewPushProcessor\<close> and 1025 subscribers it starts
  1025, as many as the path with one goroutine per subscriber would.
\<close>

theorem batched_path_adds_a_batch_for_the_remainder:
  "map_option (map length \<circ> batches \<circ> fst)
     (Process (const_world ('''', None) ([], None)) \<lparr>max_nr_gorountines = 2, max_nr_retry = 3\<rparr>
        (fanout_req [''a'', ''b'', ''c'', ''d'', ''e''])) = Some [2, 2, 1] \<and>
   map_option (length \<circ> batches \<circ> fst)
     (Process (const_world ('''', None) ([], None)) NewPushProcessor
        (fanout_req (replicate 1025 ''s''))) = Some 1025"
proof
  have "0 < max_nr_gorountines \<lparr>max_nr_gorountines = 2, max_nr_retry = 3\<rparr>"
    and "max_nr_gorountines \<lparr>max_nr_gorountines = 2, max_nr_retry = 3\<rparr>
          < int (length (Subscribers (fanout_req [''a'', ''b'', ''c'', ''d'', ''e''])))"
    by (simp_all add: fanout_req_def)
  from Process_batches_general [OF this, of "const_world ('''', None) ([], None)"]
  obtain tr where "Process (const_world ('''', None) ([], None))
        \<lparr>max_nr_gorountines = 2, max_nr_retry = 3\<rparr>
        (fanout_req [''a'', ''b'', ''c'', ''d'', ''e'']) = Some (tr, None)"
    and "map length (batches tr) = [2, 2, 1]"
    by (auto simp: Let_def fanout_req_def two_chunks)
  then show "map_option (map length \<circ> batches \<circ> fst)
     (Process (const_world ('''', None) ([], None)) \<lparr>max_nr_gorountines = 2, max_nr_retry = 3\<rparr>
        (fanout_req [''a'', ''b'', ''c'', ''d'', ''e''])) = Some [2, 2, 1]"
    by simp
next
  have "0 < max_nr_gorountines NewPushProcessor"
    and "max_nr_gorountines NewPushProcessor
          < int (length (Subscribers (fanout_req (replicate 1025 ''s''))))"
    by (simp_all add: fanout_req_def NewPushProcessor_def)
  from Process_batches_general [OF this, of "const_world ('''', None) ([], None)"]
  obtain tr where P: "Process (const_world ('''', None) ([], None)) NewPushProcessor
        (fanout_req (replicate 1025 ''s'')) = Some (tr, None)"
    and L: "map length (batches tr) = replicate 1024 1 @ [1]"
    by (auto simp: Let_def fanout_req_def NewPushProcessor_def)
  from L have "length (map length (batches tr)) = length (replicate 1024 (1::nat) @ [1])"
    by (rule arg_cong)
  then have "length (batches tr) = 1025"
    by simp
  with P show "map_option (length \<circ> batches \<circ> fst)
     (Process (const_world ('''', None) ([], None)) NewPushProcessor
        (fanout_req (replicate 1025 ''s''))) = Some 1025"
    by simp
qed

text \<open>
  What the batched path does for a request with \<open>n\<close> subscribers and a positive cap
  \<open>c < n\<close>: \<open>Process\<close> returns without a panic and starts one \<^verbatim>\<open>pushBulk\<close> goroutine
  for each of \<open>c\<close> contiguous batches of \<open>n div c\<close> subscribers, followed, when
  \<open>n mod c\<close> is not 0, by one more goroutine for the remaining \<open>n mod c\<close> subscribers.
  The batches in order make up the subscriber list, and the subscribers looked up by the
  goroutines that \<open>Process\<close> starts are the subscribers of the request, each once.
\<close>

theorem Process_batches:
  assumes "0 < max_nr_gorountines p"
    and "max_nr_gorountines p < int (length (Subscribers req))"
  shows "let c = nat (max_nr_gorountines p); subs = Subscribers req; n = length subs;
             m = n div c
         in \<exists>tr. Process w p req = Some (tr, None) \<and>
              batches tr = map (\<lambda>i. take m (drop (i * m) subs)) [0..<c] @
                           (if n mod c = 0 then [] else [drop (c * m) subs]) \<and>
              map length (batches tr) = replicate c m @ (if n mod c = 0 then [] else [n mod c]) \<and>
              concat (batches tr) = subs \<and>
              concat (map (\<lambda>ev. lookups (goroutine w p ev)) tr) = subs"
  using assms by (rule Process_batches_general)

theorem Process_batches_witness:
  "\<exists>tr. Process (const_world ('''', None) ([], None)) \<lparr>max_nr_gorountines = 2, max_nr_retry = 3\<rparr>
          (fanout_req [''a'', ''b'', ''c'', ''d'', ''e'']) = Some (tr, None) \<and>
        batches tr = [[''a'', ''b''], [''c'', ''d''], [''e'']] \<and>
        concat (batches tr) = [''a'', ''b'', ''c'', ''d'', ''e'']"
proof -
  have "0 < max_nr_gorountines \<lparr>max_nr_gorountines = 2, max_nr_retry = 3\<rparr>"
    and "max_nr_gorountines \<lparr>max_nr_gorountines = 2, max_nr_retry = 3\<rparr>
          < int (length (Subscribers (fanout_req [''a'', ''b'', ''c'', ''d'', ''e''])))"
    by (simp_all add: fanout_req_def)
  from Process_batches [OF this, of "const_world ('''', None) ([], None)"]
  show ?thesis
    by (auto simp: Let_def fanout_req_def two_chunks)
qed

subsection \<open>The dispatcher: finishing the request\<close>

text \<open>
  A cap below zero makes the batch size negative or the loop bound zero: the loop panics
  at its first slice or does not run.
\<close>

lemma Process_loop_nonpositive:
  assumes "per < 0 \<or> bound \<le> 0"
  shows "Process_loop req per bound 0 [] =
           (if 0 < bound then Some ([WgAdd], None) else Some ([], Some 0))"
  using assms by (subst Process_loop.simps) (auto simp: slice_def)

lemma negative_cap:
  assumes "cap < 0"
  shows "go_quot (int n) cap < 0 \<or> int n - go_rem (int n) cap \<le> 0"
proof (cases "int n div \<bar>cap\<bar> = 0")
  case True
  have "int n div \<bar>cap\<bar> * \<bar>cap\<bar> + int n mod \<bar>cap\<bar> = int n"
    by (rule div_mult_mod_eq)
  with True have "int n mod \<bar>cap\<bar> = int n"
    by simp
  then show ?thesis
    by (simp add: go_rem_def sgn_if)
next
  case False
  moreover have "0 \<le> int n div \<bar>cap\<bar>"
    using assms by (intro pos_imp_zdiv_nonneg_iff [THEN iffD2]) simp_all
  ultimately have "0 < int n div \<bar>cap\<bar>"
    by linarith
  moreover from False have "n \<noteq> 0"
    by (cases n) simp_all
  ultimately show ?thesis
    using assms by (simp add: go_quot_def sgn_if)
qed

lemma go_push_events_no_finish:
  "finishes (concat (map (\<lambda>sub. [WgAdd, Go_push req sub]) subs)) = 0"
  by (induction subs) (simp_all add: finishes_def)

text \<open>
  Claim C7. \<open>Process\<close> always returns or panics (the loop of the batched path ends),
  and on the direct path, the path with one goroutine per subscriber and the batched
  path alike its events hold exactly one \<open>Finish\<close>, as the last event, whatever the
  storage and the push service manager answer. No goroutine that the processor starts
  (a \<open>push\<close>, a \<open>pushBulk\<close> or a retry) finishes a request.
\<close>

theorem Process_finishes_exactly_once:
  "\<exists>tr panic. Process w p req = Some (tr, panic) \<and> finishes tr = 1 \<and> last tr = Finish \<and>
     (\<forall>ev. finishes (goroutine w p ev) = 0)"
proof -
  have one: "finishes [Finish] = 1" "finishes [WgWait, Finish] = 1" "finishes [WgAdd, Finish] = 1"
    "finishes [] = 0"
    by (simp_all add: finishes_def)
  have main: "\<exists>tr panic. Process w p req = Some (tr, panic) \<and> finishes tr = 1 \<and> last tr = Finish"
  proof (cases "length (Subscribers req) \<noteq> 1 \<or> PushServiceProvider req = None \<or>
           DeliveryPoint req = None")
    case False
    then obtain s psp dp where "Subscribers req = [s]" "PushServiceProvider req = Some psp"
      "DeliveryPoint req = Some dp"
      by (cases "Subscribers req"; cases "tl (Subscribers req)") auto
    then have "Process w p req = Some (pushToDeliveryPoint w p req s psp dp @ [Finish], None)"
      by (simp add: Process_def)
    then show ?thesis
      by (simp add: finishes_append finishes_pushToDeliveryPoint one)
  next
    case fan: True
    note unfold = Process_fanout [OF fan, of w p]
    consider (few) "int (length (Subscribers req)) \<le> max_nr_gorountines p"
      | (zero) "max_nr_gorountines p < int (length (Subscribers req))" "max_nr_gorountines p = 0"
      | (pos) "max_nr_gorountines p < int (length (Subscribers req))" "0 < max_nr_gorountines p"
      | (neg) "max_nr_gorountines p < int (length (Subscribers req))" "max_nr_gorountines p < 0"
      by linarith
    then show ?thesis
    proof cases
      case few
      then show ?thesis
        by (simp add: unfold finishes_append go_push_events_no_finish one)
    next
      case zero
      then show ?thesis
        by (simp add: unfold one)
    next
      case pos
      then have c: "0 < nat (max_nr_gorountines p)"
        and n: "nat (max_nr_gorountines p) < length (Subscribers req)"
        and cap: "max_nr_gorountines p = int (nat (max_nr_gorountines p))"
        by simp_all
      show ?thesis
        by (simp add: Process_batched [OF c n cap] finishes_append spawn_events one
            finishes_def [of "[WgAdd, Go_pushBulk _ _]"])
    next
      case neg
      have loop: "Process_loop req
          (go_quot (int (length (Subscribers req))) (max_nr_gorountines p))
          (int (length (Subscribers req)) -
           go_rem (int (length (Subscribers req))) (max_nr_gorountines p)) 0 [] =
          (if 0 < int (length (Subscribers req)) -
                  go_rem (int (length (Subscribers req))) (max_nr_gorountines p)
           then Some ([WgAdd], None) else Some ([], Some 0))"
        by (rule Process_loop_nonpositive) (rule negative_cap [OF neg(2)])
      have whole: "slice (Subscribers req) 0 (int (length (Subscribers req))) =
          Some (Subscribers req)"
        by (simp add: slice_def)
      from neg show ?thesis
        by (simp add: unfold loop whole one finishes_append
            finishes_def [of "[WgAdd, Go_pushBulk _ _, WgWait, Finish]"] del: of_nat_less_iff)
    qed
  qed
  then show ?thesis
    by (simp add: goroutine_never_finishes)
qed

theorem Process_finishes_exactly_once_witness:
  "\<exists>tr panic. Process (const_world (''m1'', Some (OtherError ''refused''))
                         ([], Some (OtherError ''db down'')))
       NewPushProcessor (fanout_req [''alice'', ''bob'']) = Some (tr, panic) \<and>
     finishes tr = 1 \<and> last tr = Finish"
  using Process_finishes_exactly_once [of
      "const_world (''m1'', Some (OtherError ''refused'')) ([], Some (OtherError ''db down''))"
      NewPushProcessor "fanout_req [''alice'', ''bob'']"]
  by blast

end
